theory Spec2Isabelle
  imports Main "HOL-Library.Word" "HOL-Library.Sublist"
begin

unbundle bit_operations_syntax

section \<open>Go values: byte buffers, runtime panics, error values\<close>

type_synonym byte = "8 word"
type_synonym bytes = "byte list"

text \<open>
  A Go function either returns or panics. The two runtime panics that the slice
  expressions of \<^verbatim>\<open>aes.go\<close> and \<^verbatim>\<open>hash.go\<close> can raise are kept apart from the
  \<^verbatim>\<open>error\<close> values the functions return; \<open>NilDereference\<close> is the panic of a
  call through a nil function value.
\<close>

datatype panic = IndexOutOfRange | SliceBoundsOutOfRange | NilDereference

datatype failure = Panic panic | Err string

text \<open>\<^verbatim>\<open>s[i]\<close>: the index has to lie in \<open>0 \<le> i < len(s)\<close>.\<close>

definition index_at :: "bytes \<Rightarrow> int \<Rightarrow> panic + byte" where
  "index_at s i =
     (if 0 \<le> i \<and> i < int (length s) then Inr (s ! nat i) else Inl IndexOutOfRange)"

text \<open>\<^verbatim>\<open>s[lo:]\<close>: the bound has to lie in \<open>0 \<le> lo \<le> len(s)\<close>.\<close>

definition slice_from :: "bytes \<Rightarrow> int \<Rightarrow> panic + bytes" where
  "slice_from s lo =
     (if 0 \<le> lo \<and> lo \<le> int (length s) then Inr (drop (nat lo) s)
      else Inl SliceBoundsOutOfRange)"

text \<open>
  \<^verbatim>\<open>s[:hi]\<close>: the bound has to lie in \<open>0 \<le> hi \<le> cap(s)\<close>, and a bound beyond
  \<open>len(s)\<close> reaches into the rest of the backing array. \<open>spare\<close> is that rest:
  the \<open>cap(s) - len(s)\<close> bytes that follow the slice in its backing array.
\<close>

definition slice_to :: "bytes \<Rightarrow> bytes \<Rightarrow> int \<Rightarrow> panic + bytes" where
  "slice_to s spare hi =
     (if 0 \<le> hi \<and> hi \<le> int (length s) + int (length spare)
      then Inr (take (nat hi) (s @ spare))
      else Inl SliceBoundsOutOfRange)"

section \<open>PKCS7 padding (\<^verbatim>\<open>primitives/aes.go\<close>)\<close>

text \<open>\<^verbatim>\<open>aes.BlockSize\<close> of the Go standard library.\<close>

definition BlockSize :: int where
  "BlockSize = 16"

text \<open>
  \<^verbatim>\<open>padding := aes.BlockSize - len(src)%aes.BlockSize\<close>,
  \<^verbatim>\<open>padtext := bytes.Repeat([]byte{byte(padding)}, padding)\<close>,
  \<^verbatim>\<open>return append(src, padtext...)\<close>.
\<close>

definition PKCS7Padding :: "bytes \<Rightarrow> bytes" where
  "PKCS7Padding src =
     (let padding = BlockSize - int (length src) mod BlockSize;
          padtext = replicate (nat padding) (word_of_int padding :: byte)
      in src @ padtext)"

text \<open>
  The loop \<^verbatim>\<open>for i := 0; i < unpadding; i++ { if pad[i] != byte(unpadding) { return nil, err } }\<close>.
  \<open>None\<close>: the loop ran to its end; \<open>Some f\<close>: it left the function with \<open>f\<close>.
\<close>

function pad_loop :: "bytes \<Rightarrow> int \<Rightarrow> int \<Rightarrow> failure option" where
  "pad_loop pad unpadding i =
     (if i < unpadding then
        (case index_at pad i of
           Inl p \<Rightarrow> Some (Panic p)
         | Inr b \<Rightarrow>
             if b \<noteq> (word_of_int unpadding :: byte) then Some (Err ''invalid padding'')
             else pad_loop pad unpadding (i + 1))
      else None)"
  by pat_completeness auto
termination
  by (relation "measure (\<lambda>(pad, unpadding, i). nat (unpadding - i))") auto

declare pad_loop.simps [simp del]

text \<open>
  \<^verbatim>\<open>PKCS7UnPadding\<close>. The source reads \<^verbatim>\<open>src[length-1]\<close> and slices
  \<^verbatim>\<open>src[len(src)-unpadding:]\<close> with no check of the length before either. In the
  last slice, \<^verbatim>\<open>src[:(length - unpadding)]\<close>, the bound is at most \<open>len(src)\<close>, so the
  capacity of \<open>src\<close> beyond its length plays no part.
\<close>

definition PKCS7UnPadding :: "bytes \<Rightarrow> failure + bytes" where
  "PKCS7UnPadding src =
     (let len = int (length src) in
      case index_at src (len - 1) of
        Inl p \<Rightarrow> Inl (Panic p)
      | Inr b \<Rightarrow>
          let unpadding = uint b in
          if unpadding > BlockSize \<or> unpadding = 0 then Inl (Err ''invalid padding'')
          else
            (case slice_from src (int (length src) - unpadding) of
               Inl p \<Rightarrow> Inl (Panic p)
             | Inr pad \<Rightarrow>
                 (case pad_loop pad unpadding 0 of
                    Some f \<Rightarrow> Inl f
                  | None \<Rightarrow>
                      (case slice_to src [] (len - unpadding) of
                         Inl p \<Rightarrow> Inl (Panic p)
                       | Inr r \<Rightarrow> Inr r))))"

section \<open>AES in CBC mode (\<^verbatim>\<open>primitives/aes.go\<close>)\<close>

text \<open>
  The block cipher itself is the Go standard library's \<^verbatim>\<open>crypto/aes\<close>; it enters as a
  parameter: \<open>aes_enc key block\<close> and \<open>aes_dec key block\<close> are the encryption and the
  decryption of one 16-byte block under an expanded key.

  \<^verbatim>\<open>aes.NewCipher(key)\<close> accepts keys of 16, 24 and 32 bytes and returns a
  \<^verbatim>\<open>KeySizeError\<close> for every other length.
\<close>

definition NewCipher :: "bytes \<Rightarrow> failure + bytes" where
  "NewCipher key =
     (if length key = 16 \<or> length key = 24 \<or> length key = 32 then Inr key
      else Inl (Err ''crypto/aes: invalid key size''))"

definition xor_bytes :: "bytes \<Rightarrow> bytes \<Rightarrow> bytes" where
  "xor_bytes a b = map2 (XOR) a b"

text \<open>
  \<^verbatim>\<open>cipher.NewCBCEncrypter(block, iv).CryptBlocks(dst, src)\<close> on whole blocks: every
  plaintext block is xor-ed with the previous ciphertext block (the IV for the first
  one) and encrypted. The standard library panics on an IV that is not one block long
  and on an input that is not a whole number of blocks; \<^verbatim>\<open>CBCEncrypt\<close> and
  \<^verbatim>\<open>CBCDecrypt\<close> cut the IV to one block and check the length of the input before they
  call it.
\<close>

function CBCEncrypter_CryptBlocks :: "(bytes \<Rightarrow> bytes) \<Rightarrow> bytes \<Rightarrow> bytes \<Rightarrow> bytes" where
  "CBCEncrypter_CryptBlocks enc iv src =
     (if src = [] then []
      else (let c = enc (xor_bytes (take 16 src) iv)
            in c @ CBCEncrypter_CryptBlocks enc c (drop 16 src)))"
  by pat_completeness auto
termination
  by (relation "measure (\<lambda>(enc, iv, src). length src)") auto

text \<open>
  \<^verbatim>\<open>cipher.NewCBCDecrypter(block, iv).CryptBlocks(dst, src)\<close>: every ciphertext block is
  decrypted and xor-ed with the previous ciphertext block (the IV for the first one).
\<close>

function CBCDecrypter_CryptBlocks :: "(bytes \<Rightarrow> bytes) \<Rightarrow> bytes \<Rightarrow> bytes \<Rightarrow> bytes" where
  "CBCDecrypter_CryptBlocks dec iv src =
     (if src = [] then []
      else (let c = take 16 src
            in xor_bytes (dec c) iv @ CBCDecrypter_CryptBlocks dec c (drop 16 src)))"
  by pat_completeness auto
termination
  by (relation "measure (\<lambda>(dec, iv, src). length src)") auto

declare CBCEncrypter_CryptBlocks.simps [simp del]
declare CBCDecrypter_CryptBlocks.simps [simp del]

text \<open>
  \<^verbatim>\<open>CBCEncrypt(key, s)\<close>. \<open>rnd\<close> is the outcome of
  \<^verbatim>\<open>io.ReadFull(rand.Reader, iv)\<close> on the first block of the fresh ciphertext buffer: an
  error, or the 16 bytes it has written there. \<^verbatim>\<open>CryptBlocks\<close> then fills the rest of
  the buffer, so the result is the IV followed by the encrypted blocks.
\<close>

definition CBCEncrypt ::
  "(bytes \<Rightarrow> bytes \<Rightarrow> bytes) \<Rightarrow> bytes \<Rightarrow> bytes \<Rightarrow> string + bytes \<Rightarrow> failure + bytes" where
  "CBCEncrypt aes_enc key s rnd =
     (if int (length s) mod BlockSize \<noteq> 0
      then Inl (Err ''plaintext is not a multiple of the block size'')
      else
        (case NewCipher key of
           Inl err \<Rightarrow> Inl err
         | Inr block \<Rightarrow>
             (case rnd of
                Inl err \<Rightarrow> Inl (Err err)
              | Inr iv \<Rightarrow> Inr (iv @ CBCEncrypter_CryptBlocks (aes_enc block) iv s))))"

text \<open>
  \<^verbatim>\<open>CBCDecrypt(key, src)\<close>. The source decrypts in place
  (\<^verbatim>\<open>mode.CryptBlocks(src, src)\<close>) and returns the tail of the caller's buffer; the
  model returns its contents.
\<close>

definition CBCDecrypt :: "(bytes \<Rightarrow> bytes \<Rightarrow> bytes) \<Rightarrow> bytes \<Rightarrow> bytes \<Rightarrow> failure + bytes" where
  "CBCDecrypt aes_dec key src =
     (case NewCipher key of
        Inl err \<Rightarrow> Inl err
      | Inr block \<Rightarrow>
          if int (length src) < BlockSize then Inl (Err ''ciphertext too short'')
          else
            (let iv = take (nat BlockSize) src;
                 src = drop (nat BlockSize) src
             in if int (length src) mod BlockSize \<noteq> 0
                then Inl (Err ''ciphertext is not a multiple of the block size'')
                else Inr (CBCDecrypter_CryptBlocks (aes_dec block) iv src)))"

section \<open>HMAC (\<^verbatim>\<open>primitives/hash.go\<close>)\<close>

text \<open>
  A Go slice as far as slicing can see it: its elements, and the bytes of its backing
  array beyond its length (its spare capacity).
\<close>

record go_slice =
  elems :: bytes
  spare :: bytes

text \<open>
  \<open>defaultHash\<close> is the package variable of that name: a hash function, or nil until
  the security level is initialised. The standard library's \<^verbatim>\<open>crypto/hmac\<close> enters as
  the parameter \<open>hmac_sum\<close>: \<open>hmac_sum h key x\<close> is the slice that
  \<^verbatim>\<open>mac := hmac.New(h, key); mac.Write(x); mac.Sum(nil)\<close> returns.
  \<^verbatim>\<open>hmac.New\<close> calls the hash constructor, so a nil \<open>defaultHash\<close> panics there.
\<close>

type_synonym hash = "bytes \<Rightarrow> bytes"

definition HMAC ::
  "(hash \<Rightarrow> bytes \<Rightarrow> bytes \<Rightarrow> go_slice) \<Rightarrow> hash option \<Rightarrow> bytes \<Rightarrow> bytes \<Rightarrow> panic + bytes" where
  "HMAC hmac_sum defaultHash key x =
     (case defaultHash of
        None \<Rightarrow> Inl NilDereference
      | Some h \<Rightarrow> Inr (elems (hmac_sum h key x)))"

text \<open>
  \<^verbatim>\<open>HMACTruncated\<close> returns \<^verbatim>\<open>mac.Sum(nil)[:truncation]\<close>. Its Go result type is
  \<^verbatim>\<open>[]byte\<close> alone: it has no error result.
\<close>

definition HMACTruncated ::
  "(hash \<Rightarrow> bytes \<Rightarrow> bytes \<Rightarrow> go_slice) \<Rightarrow> hash option \<Rightarrow> bytes \<Rightarrow> bytes \<Rightarrow> int \<Rightarrow> panic + bytes" where
  "HMACTruncated hmac_sum defaultHash key x truncation =
     (case defaultHash of
        None \<Rightarrow> Inl NilDereference
      | Some h \<Rightarrow>
          (let sum = hmac_sum h key x
           in slice_to (elems sum) (spare sum) truncation))"

section \<open>The node: registration and initialisation (\<^verbatim>\<open>crypto\<close>, \<^verbatim>\<open>nodeImpl\<close>)\<close>

text \<open>
  Modelled from the spec: the declaration of \<^verbatim>\<open>NodeType\<close> (an \<^verbatim>\<open>int32\<close> in the source)
  is not among the sources; the spec gives its values as Client, Peer and Validator.
\<close>

datatype NodeType = NodeClient | NodePeer | NodeValidator

text \<open>
  The error values of \<^verbatim>\<open>crypto/utils\<close> that the node's methods name, compared by
  identity in the source; \<open>ErrOther\<close> stands for every other error value a step can
  return.
\<close>

datatype error =
    ErrAlreadyRegistered
  | ErrAlreadyInitialized
  | ErrKeyStoreAlreadyInitialized
  | ErrRegistrationRequired
  | ErrOther string

text \<open>The lines the node writes through its logging methods, with their arguments.\<close>

datatype log_arg = ArgString string | ArgError error | ArgType NodeType

datatype log_line = Error_line string "log_arg list" | Debug_line string "log_arg list"

text \<open>
  Modelled from the spec: the types \<^verbatim>\<open>configuration\<close> and \<^verbatim>\<open>keyStore\<close> are declared
  outside the sources. The only field the sources read is \<^verbatim>\<open>conf.name\<close>; of the key
  store the spec says that it is opened with a passphrase and initialised once.
\<close>

record configuration =
  name :: string

record keyStore =
  isOpen :: bool
  pwd :: bytes

text \<open>
  \<^verbatim>\<open>nodeImpl\<close>. Certificates and keys are kept as their encodings, a certificate pool as
  the list of its certificates, a nil pointer as \<open>None\<close>. \<open>logged\<close> is not a field
  of the struct: it collects what the node's logger has written, so that the logging
  calls of the methods are state updates like the others.
\<close>

record nodeImpl =
  isRegistered :: bool
  isInitialized :: bool
  eType :: NodeType
  conf :: "configuration option"
  ks :: "keyStore option"
  rootsCertPool :: "bytes list option"
  tlsCertPool :: "bytes list option"
  ecaCertPool :: "bytes list option"
  tcaCertPool :: "bytes list option"
  id_bytes :: bytes
  enrollID :: string
  enrollCert :: "bytes option"
  enrollPrivKey :: "bytes option"
  enrollCertHash :: bytes
  enrollChainKey :: "bytes option"
  tlsCert :: "bytes option"
  eciesSPI :: "string option"
  logged :: "log_line list"

text \<open>A method of the node that returns an \<^verbatim>\<open>error\<close>: the error, and the node it leaves.\<close>

type_synonym node_step = "nodeImpl \<Rightarrow> error option \<times> nodeImpl"

type_synonym registerFunc = "NodeType \<Rightarrow> string \<Rightarrow> bytes \<Rightarrow> string \<Rightarrow> string \<Rightarrow> node_step"

type_synonym initalizationFunc = "NodeType \<Rightarrow> string \<Rightarrow> bytes \<Rightarrow> node_step"

text \<open>
  The methods of \<^verbatim>\<open>nodeImpl\<close> that \<^verbatim>\<open>register\<close> and \<^verbatim>\<open>init\<close> call and that are defined
  outside the sources. They are parameters of the model: each may read and write the
  whole node.
\<close>

record node_methods =
  initConfiguration :: "string \<Rightarrow> node_step"
  initKeyStore :: "bytes \<Rightarrow> node_step"
  registerCryptoEngine :: "string \<Rightarrow> string \<Rightarrow> node_step"
  initCryptoEngine :: "node_step"

definition Errorf :: "string \<Rightarrow> log_arg list \<Rightarrow> nodeImpl \<Rightarrow> nodeImpl" where
  "Errorf format args node = node\<lparr>logged := logged node @ [Error_line format args]\<rparr>"

definition Debugf :: "string \<Rightarrow> log_arg list \<Rightarrow> nodeImpl \<Rightarrow> nodeImpl" where
  "Debugf format args node = node\<lparr>logged := logged node @ [Debug_line format args]\<rparr>"

definition IsInitialized :: "nodeImpl \<Rightarrow> bool" where
  "IsInitialized node = isInitialized node"

definition setInitialized :: "nodeImpl \<Rightarrow> nodeImpl" where
  "setInitialized node = node\<lparr>isInitialized := True\<rparr>"

definition IsRegistered :: "nodeImpl \<Rightarrow> bool" where
  "IsRegistered node = isRegistered node"

definition setRegistered :: "nodeImpl \<Rightarrow> nodeImpl" where
  "setRegistered node = node\<lparr>isRegistered := True\<rparr>"

definition nodeRegister ::
  "node_methods \<Rightarrow> NodeType \<Rightarrow> string \<Rightarrow> bytes \<Rightarrow> string \<Rightarrow> string \<Rightarrow> node_step" where
  "nodeRegister M eType' name' pwd' enrollID' enrollPWD node =
     (case registerCryptoEngine M enrollID' enrollPWD node of
        (Some err, node) \<Rightarrow>
          (Some err, Errorf ''Failed registering node crypto engine [%s].'' [ArgError err] node)
      | (None, node) \<Rightarrow> (None, node))"

text \<open>\<^verbatim>\<open>register\<close>, statement by statement; \<open>regFunc\<close> is \<open>None\<close> for a nil hook.\<close>

definition register ::
  "node_methods \<Rightarrow> NodeType \<Rightarrow> string \<Rightarrow> bytes \<Rightarrow> string \<Rightarrow> string \<Rightarrow>
     registerFunc option \<Rightarrow> node_step" where
  "register M eType' name' pwd' enrollID' enrollPWD regFunc node =
     (let node = node\<lparr>eType := eType'\<rparr> in
      case initConfiguration M name' node of
        (Some err, node) \<Rightarrow>
          (Some err,
           Errorf ''Failed initiliazing configuration [%s]: [%s].''
             [ArgString enrollID', ArgError err] node)
      | (None, node) \<Rightarrow>
          (case initKeyStore M pwd' node of
             (Some err, node) \<Rightarrow>
               (Some err,
                if err = ErrKeyStoreAlreadyInitialized
                then Errorf ''Keystore already initialized.'' [] node
                else Errorf ''Failed initiliazing keystore [%s].'' [ArgError err] node)
           | (None, node) \<Rightarrow>
               if IsRegistered node then (Some ErrAlreadyRegistered, node)
               else if IsInitialized node then (Some ErrAlreadyInitialized, node)
               else
                 (case nodeRegister M eType' name' pwd' enrollID' enrollPWD node of
                    (Some err, node) \<Rightarrow> (Some err, node)
                  | (None, node) \<Rightarrow>
                      (case (case regFunc of
                               None \<Rightarrow> (None, node)
                             | Some f \<Rightarrow> f eType' name' pwd' enrollID' enrollPWD node) of
                         (Some err, node) \<Rightarrow> (Some err, node)
                       | (None, node) \<Rightarrow>
                           (None,
                            Debugf ''Registration of node [%s] with name [%s] completed''
                              [ArgType eType', ArgString name']
                              (setRegistered node))))))"

definition nodeInit :: "node_methods \<Rightarrow> NodeType \<Rightarrow> string \<Rightarrow> bytes \<Rightarrow> node_step" where
  "nodeInit M eType' name' pwd' node =
     (case initCryptoEngine M node of
        (Some err, node) \<Rightarrow>
          (Some err,
           Errorf ''Failed initiliazing crypto engine [%s]. %s''
             [ArgError err, ArgError ErrRegistrationRequired] node)
      | (None, node) \<Rightarrow> (None, node))"

text \<open>\<^verbatim>\<open>init\<close>, statement by statement; \<open>initFunc\<close> is \<open>None\<close> for a nil hook.\<close>

definition init ::
  "node_methods \<Rightarrow> NodeType \<Rightarrow> string \<Rightarrow> bytes \<Rightarrow> initalizationFunc option \<Rightarrow> node_step" where
  "init M eType' name' pwd' initFunc node =
     (let node = node\<lparr>eType := eType'\<rparr> in
      case initConfiguration M name' node of
        (Some err, node) \<Rightarrow>
          (Some err,
           Errorf ''Failed initiliazing configuration: [%s]'' [ArgError err] node)
      | (None, node) \<Rightarrow>
          (case initKeyStore M pwd' node of
             (Some err, node) \<Rightarrow>
               (Some err,
                if err = ErrKeyStoreAlreadyInitialized
                then Errorf ''Keystore already initialized.'' [] node
                else Errorf ''Failed initiliazing keystore [%s].'' [ArgError err] node)
           | (None, node) \<Rightarrow>
               if IsInitialized node then (Some ErrAlreadyInitialized, node)
               else
                 (case nodeInit M eType' name' pwd' node of
                    (Some err, node) \<Rightarrow> (Some err, node)
                  | (None, node) \<Rightarrow>
                      (case (case initFunc of
                               None \<Rightarrow> (None, node)
                             | Some f \<Rightarrow> f eType' name' pwd' node) of
                         (Some err, node) \<Rightarrow> (Some err, node)
                       | (None, node) \<Rightarrow> (None, setInitialized node)))))"

section \<open>The security helper of the peer process (\<^verbatim>\<open>getSecHelper\<close>)\<close>

text \<open>
  What \<^verbatim>\<open>getSecHelper\<close> reads from the configuration: \<^verbatim>\<open>core.SecurityEnabled()\<close>,
  \<^verbatim>\<open>peer.ValidatorEnabled()\<close> and the two \<^verbatim>\<open>viper\<close> strings.
\<close>

record settings =
  securityEnabled :: bool
  validatorEnabled :: bool
  security_enrollID :: string
  security_enrollSecret :: string

text \<open>
  The four functions of package \<^verbatim>\<open>crypto\<close> that \<^verbatim>\<open>getSecHelper\<close> calls are parameters.
  They register and initialise a node, so they act on the rest of the process, a state
  of type \<open>'w\<close>; \<open>'p\<close> is the type of the \<^verbatim>\<open>crypto.Peer\<close> they hand out. The nil
  password of the calls is the empty buffer.
\<close>

record ('w, 'p) crypto_pkg =
  RegisterValidator :: "string \<Rightarrow> bytes \<Rightarrow> string \<Rightarrow> string \<Rightarrow> 'w \<Rightarrow> error option \<times> 'w"
  InitValidator :: "string \<Rightarrow> bytes \<Rightarrow> 'w \<Rightarrow> ('p option \<times> error option) \<times> 'w"
  RegisterPeer :: "string \<Rightarrow> bytes \<Rightarrow> string \<Rightarrow> string \<Rightarrow> 'w \<Rightarrow> error option \<times> 'w"
  InitPeer :: "string \<Rightarrow> bytes \<Rightarrow> 'w \<Rightarrow> ('p option \<times> error option) \<times> 'w"

text \<open>
  The process: the package variable \<^verbatim>\<open>once\<close> (a \<^verbatim>\<open>sync.Once\<close> is a flag that says
  whether its function has run) and the state the crypto package acts on.
\<close>

record 'w process =
  once_done :: bool
  world :: 'w

text \<open>
  \<^verbatim>\<open>once.Do(f)\<close> in a sequential run: \<open>f\<close> is called if and only if \<^verbatim>\<open>Do\<close> has not
  been called on this \<^verbatim>\<open>Once\<close> before. \<open>f\<close> is a closure: it reads and writes the
  variables \<open>c\<close> it has captured.
\<close>

definition Once_Do ::
  "('c \<Rightarrow> 'w \<Rightarrow> 'c \<times> 'w) \<Rightarrow> 'c \<Rightarrow> 'w process \<Rightarrow> 'c \<times> 'w process" where
  "Once_Do f c st =
     (if once_done st then (c, st)
      else (let (c', w) = f c (world st)
            in (c', st\<lparr>once_done := True, world := w\<rparr>)))"

text \<open>
  The function literal that \<^verbatim>\<open>getSecHelper\<close> passes to \<^verbatim>\<open>once.Do\<close>. It captures the
  local variables \<^verbatim>\<open>secHelper\<close> and \<^verbatim>\<open>err\<close> of the call that created it.
\<close>

definition getSecHelper_func ::
  "settings \<Rightarrow> ('w, 'p) crypto_pkg \<Rightarrow> 'p option \<times> error option \<Rightarrow> 'w \<Rightarrow>
     ('p option \<times> error option) \<times> 'w" where
  "getSecHelper_func cfg C captured w =
     (let (secHelper, err) = captured in
      if securityEnabled cfg then
        (let enrollID' = security_enrollID cfg;
             enrollSecret = security_enrollSecret cfg
         in if validatorEnabled cfg then
              (case RegisterValidator C enrollID' [] enrollID' enrollSecret w of
                 (Some err, w) \<Rightarrow> ((secHelper, Some err), w)
               | (None, w) \<Rightarrow> InitValidator C enrollID' [] w)
            else
              (case RegisterPeer C enrollID' [] enrollID' enrollSecret w of
                 (Some err, w) \<Rightarrow> ((secHelper, Some err), w)
               | (None, w) \<Rightarrow> InitPeer C enrollID' [] w))
      else ((secHelper, err), w))"

text \<open>
  \<^verbatim>\<open>getSecHelper\<close>: \<^verbatim>\<open>secHelper\<close> and \<^verbatim>\<open>err\<close> are declared in the function body, so
  every call starts with both nil, and returns them as \<^verbatim>\<open>once.Do\<close> leaves them.
\<close>

definition getSecHelper ::
  "settings \<Rightarrow> ('w, 'p) crypto_pkg \<Rightarrow> 'w process \<Rightarrow>
     ('p option \<times> error option) \<times> 'w process" where
  "getSecHelper cfg C st =
     (let secHelper = None;
          err = None
      in Once_Do (getSecHelper_func cfg C) (secHelper, err) st)"

section \<open>Test doubles\<close>

text \<open>
  Concrete stand-ins for the parameters of the model, for the closed examples below.
  The AES stand-in xors a block with the first 16 key bytes; the HMAC stand-in returns
  a 32-byte tag in a buffer with no spare capacity.
\<close>

definition toy_aes :: "bytes \<Rightarrow> bytes \<Rightarrow> bytes" where
  "toy_aes key block = xor_bytes block (take 16 key)"

definition toy_hash :: hash where
  "toy_hash msg = replicate 32 (word_of_nat (length msg))"

definition toy_hmac_sum :: "hash \<Rightarrow> bytes \<Rightarrow> bytes \<Rightarrow> go_slice" where
  "toy_hmac_sum h key x = \<lparr>elems = h (key @ x), spare = []\<rparr>"

text \<open>The zero value of \<^verbatim>\<open>nodeImpl\<close>.\<close>

definition new_node :: nodeImpl where
  "new_node =
     \<lparr>isRegistered = False, isInitialized = False, eType = NodeClient, conf = None,
      ks = None, rootsCertPool = None, tlsCertPool = None, ecaCertPool = None,
      tcaCertPool = None, id_bytes = [], enrollID = [], enrollCert = None,
      enrollPrivKey = None, enrollCertHash = [], enrollChainKey = None, tlsCert = None,
      eciesSPI = None, logged = []\<rparr>"

text \<open>A configuration step that binds the configuration of the given name.\<close>

definition test_initConfiguration :: "string \<Rightarrow> node_step" where
  "test_initConfiguration name' node = (None, node\<lparr>conf := Some \<lparr>name = name'\<rparr>\<rparr>)"

text \<open>A key store step that opens a fresh store under the passphrase on every call.\<close>

definition test_initKeyStore :: "bytes \<Rightarrow> node_step" where
  "test_initKeyStore pwd' node = (None, node\<lparr>ks := Some \<lparr>isOpen = True, pwd = pwd'\<rparr>\<rparr>)"

definition test_registerCryptoEngine :: "string \<Rightarrow> string \<Rightarrow> node_step" where
  "test_registerCryptoEngine enrollID' enrollPWD node =
     (if enrollPWD = [] then (Some (ErrOther ''enrollment refused''), node)
      else (None, node\<lparr>enrollID := enrollID', enrollCert := Some [1, 2, 3]\<rparr>))"

definition test_initCryptoEngine :: node_step where
  "test_initCryptoEngine node =
     (if enrollCert node = None then (Some (ErrOther ''no enrollment certificate''), node)
      else (None, node\<lparr>eciesSPI := Some ''ecies''\<rparr>))"

text \<open>
  Hooks in the manner of a validator's: they derive further key material and fail when
  the crypto engine has left no enrollment certificate.
\<close>

definition test_regFunc :: registerFunc where
  "test_regFunc eType' name' pwd' enrollID' enrollPWD node =
     (if enrollCert node = None then (Some (ErrOther ''no enrollment certificate''), node)
      else (None, node\<lparr>enrollChainKey := Some [4, 5, 6]\<rparr>))"


definition test_methods :: node_methods where
  "test_methods =
     \<lparr>initConfiguration = test_initConfiguration, initKeyStore = test_initKeyStore,
      registerCryptoEngine = test_registerCryptoEngine,
      initCryptoEngine = test_initCryptoEngine\<rparr>"

text \<open>
  A counting crypto package: the state of the process is the number of register and
  initialise calls made so far. Registration is refused for an empty enrollment secret.
\<close>

definition counting_register :: "string \<Rightarrow> bytes \<Rightarrow> string \<Rightarrow> string \<Rightarrow> nat \<Rightarrow> error option \<times> nat" where
  "counting_register name' pwd' enrollID' enrollPWD n =
     (if enrollPWD = [] then (Some (ErrOther ''enrollment refused''), Suc n)
      else (None, Suc n))"

definition counting_init :: "string \<Rightarrow> bytes \<Rightarrow> nat \<Rightarrow> (string option \<times> error option) \<times> nat" where
  "counting_init name' pwd' n = ((Some name', None), Suc n)"

definition counting_crypto :: "(nat, string) crypto_pkg" where
  "counting_crypto =
     \<lparr>RegisterValidator = counting_register, InitValidator = counting_init,
      RegisterPeer = counting_register, InitPeer = counting_init\<rparr>"

definition secure_settings :: "string \<Rightarrow> settings" where
  "secure_settings secret =
     \<lparr>securityEnabled = True, validatorEnabled = True, security_enrollID = ''vp0'',
      security_enrollSecret = secret\<rparr>"

definition new_process :: "nat process" where
  "new_process = \<lparr>once_done = False, world = 0\<rparr>"



text \<open>
  A step keeps the two lifecycle flags when it writes neither: in the sources only
  \<^verbatim>\<open>setRegistered\<close> and \<^verbatim>\<open>setInitialized\<close> write them.
\<close>

definition keeps_flags :: "node_step \<Rightarrow> bool" where
  "keeps_flags step =
     (\<forall>node. isRegistered (snd (step node)) = isRegistered node \<and>
             isInitialized (snd (step node)) = isInitialized node)"

text \<open>
  The enrollment material that the node holds: the fields of \<^verbatim>\<open>nodeImpl\<close> that the
  source groups as the enrollment certificate and private key, and the enrollment
  chain key. A step keeps the material when it writes none of these fields.
\<close>

definition enrollment_material ::
  "nodeImpl \<Rightarrow> string \<times> bytes option \<times> bytes option \<times> bytes \<times> bytes option" where
  "enrollment_material node =
     (enrollID node, enrollCert node, enrollPrivKey node, enrollCertHash node,
      enrollChainKey node)"


section \<open>PKCS7 padding: round trip and the length of the padded buffer\<close>

lemma nat_int_pred: "nat (int n - 1) = n - 1"
  by arith

lemma index_at_last:
  assumes "s \<noteq> []"
  shows "index_at s (int (length s) - 1) = Inr (last s)"
proof -
  from assms have "0 \<le> int (length s) - 1 \<and> int (length s) - 1 < int (length s)"
    by (cases s) simp_all
  moreover have "s ! nat (int (length s) - 1) = last s"
    by (simp only: nat_int_pred last_conv_nth [OF assms])
  ultimately show ?thesis
    by (simp add: index_at_def)
qed

lemma pad_loop_all_equal:
  "0 \<le> i \<Longrightarrow> int (length pad) = p \<Longrightarrow>
   (\<forall>j. nat i \<le> j \<and> j < length pad \<longrightarrow> pad ! j = word_of_int p) \<Longrightarrow>
   pad_loop pad p i = None"
proof (induction pad p i rule: pad_loop.induct)
  case (1 pad unpadding i)
  show ?case
  proof (cases "i < unpadding")
    case False
    then show ?thesis by (simp add: pad_loop.simps)
  next
    case True
    with "1.prems" have inr: "index_at pad i = Inr (pad ! nat i)"
      by (simp add: index_at_def)
    from True "1.prems" have eq: "pad ! nat i = word_of_int unpadding"
      by auto
    have "pad_loop pad unpadding (i + 1) = None"
    proof (rule "1.IH" [OF True inr])
      show "\<not> pad ! nat i \<noteq> word_of_int unpadding" using eq by simp
      show "0 \<le> i + 1" using "1.prems" by simp
      show "int (length pad) = unpadding" using "1.prems" by simp
      show "\<forall>j. nat (i + 1) \<le> j \<and> j < length pad \<longrightarrow> pad ! j = word_of_int unpadding"
        using "1.prems" by auto
    qed
    with True inr eq show ?thesis
      by (subst pad_loop.simps) simp
  qed
qed

lemma padding_range:
  "0 < BlockSize - int n mod BlockSize \<and> BlockSize - int n mod BlockSize \<le> 16"
  by (simp add: BlockSize_def)

lemma uint_padding_byte:
  "0 < p \<Longrightarrow> p \<le> 16 \<Longrightarrow> uint (word_of_int p :: byte) = p"
  by (simp add: uint_word_of_int)

lemma PKCS7Padding_append:
  "PKCS7Padding b =
     b @ replicate (nat (BlockSize - int (length b) mod BlockSize))
           (word_of_int (BlockSize - int (length b) mod BlockSize))"
  by (simp add: PKCS7Padding_def Let_def)

lemma PKCS7UnPadding_Padding: "PKCS7UnPadding (PKCS7Padding b) = Inr b"
proof -
  define p where "p = BlockSize - int (length b) mod BlockSize"
  have p: "0 < p" "p \<le> 16"
    using padding_range [of "length b"] by (simp_all add: p_def)
  define v :: byte where "v = word_of_int p"
  let ?padded = "b @ replicate (nat p) v"
  have pad: "PKCS7Padding b = ?padded"
    by (simp add: PKCS7Padding_append p_def v_def)
  have uv: "uint v = p"
    using p by (simp add: v_def uint_padding_byte)
  have last: "index_at ?padded (int (length ?padded) - 1) = Inr v"
  proof -
    have "?padded \<noteq> []" using p by simp
    from index_at_last [OF this] show ?thesis using p by simp
  qed
  have sl: "slice_from ?padded (int (length ?padded) - p) = Inr (replicate (nat p) v)"
    using p by (simp add: slice_from_def)
  have lp: "pad_loop (replicate (nat p) v) p 0 = None"
    using p by (intro pad_loop_all_equal) (simp_all add: v_def)
  have st: "slice_to ?padded [] (int (length ?padded) - p) = Inr b"
    using p by (simp add: slice_to_def)
  show ?thesis
    unfolding pad PKCS7UnPadding_def Let_def
    using p by (simp only: last sl lp st uv sum.case option.case BlockSize_def) simp
qed

lemma length_PKCS7Padding:
  "int (length (PKCS7Padding b)) = int (length b) + (16 - int (length b) mod 16)"
  using padding_range [of "length b"]
  by (simp add: PKCS7Padding_append BlockSize_def)

text \<open>
  C6. For every byte buffer \<open>b\<close>, unpadding the padded buffer gives \<open>b\<close> back; the
  padded buffer has length \<open>len(b) + (16 - len(b) mod 16)\<close>, which is a positive
  multiple of 16 and greater than \<open>len(b)\<close>; and when \<open>len(b)\<close> is a multiple of 16,
  a full block of 16 bytes of value 16 is appended.
\<close>

theorem PKCS7_round_trip:
  "PKCS7UnPadding (PKCS7Padding b) = Inr b \<and>
   int (length (PKCS7Padding b)) = int (length b) + (16 - int (length b) mod 16) \<and>
   0 < length (PKCS7Padding b) \<and>
   length (PKCS7Padding b) mod 16 = 0 \<and>
   length b < length (PKCS7Padding b) \<and>
   (length b mod 16 = 0 \<longrightarrow> PKCS7Padding b = b @ replicate 16 16)"
proof -
  note len = length_PKCS7Padding [of b]
  have m: "0 \<le> int (length b) mod 16" "int (length b) mod 16 < 16" by simp_all
  have gt: "length b < length (PKCS7Padding b)" using len m by linarith
  have "(int (length b) + (16 - int (length b) mod 16)) mod 16 = 0"
    by presburger
  with len have "int (length (PKCS7Padding b)) mod 16 = 0" by simp
  then have dv: "length (PKCS7Padding b) mod 16 = 0" by presburger
  have full: "length b mod 16 = 0 \<longrightarrow> PKCS7Padding b = b @ replicate 16 16"
  proof
    assume "length b mod 16 = 0"
    then have "int (length b) mod 16 = 0" by presburger
    then show "PKCS7Padding b = b @ replicate 16 16"
      by (simp add: PKCS7Padding_append BlockSize_def)
  qed
  have pos: "0 < length (PKCS7Padding b)" using gt by linarith
  from PKCS7UnPadding_Padding [of b] len pos dv gt full show ?thesis
    by (intro conjI)
qed

theorem PKCS7_round_trip_witness:
  "length ([] :: bytes) mod 16 = 0 \<and>
   PKCS7Padding [] = replicate 16 16 \<and>
   PKCS7UnPadding (replicate 16 16) = Inr []"
proof -
  note rt = PKCS7_round_trip [of "[]"]
  have z: "length ([] :: bytes) mod 16 = 0" by simp
  from rt z have p: "PKCS7Padding [] = replicate 16 16" by simp
  from rt have "PKCS7UnPadding (PKCS7Padding []) = Inr []" by (rule conjunct1)
  with z p show ?thesis by simp
qed

text \<open>
  C10. On the empty buffer \<^verbatim>\<open>PKCS7UnPadding\<close> does not return the invalid-padding
  error: the unchecked read of \<^verbatim>\<open>src[length-1]\<close> panics with an index out of range. So
  whenever the function returns, with a buffer or with an error, its input had at
  least one byte.
\<close>

theorem PKCS7UnPadding_empty_panics:
  "PKCS7UnPadding [] = Inl (Panic IndexOutOfRange) \<and>
   ((\<forall>p. PKCS7UnPadding src \<noteq> Inl (Panic p)) \<longrightarrow> 1 \<le> length src)"
proof -
  have e: "PKCS7UnPadding [] = Inl (Panic IndexOutOfRange)"
    by (simp add: PKCS7UnPadding_def index_at_def)
  have "(\<forall>p. PKCS7UnPadding src \<noteq> Inl (Panic p)) \<longrightarrow> 1 \<le> length src"
  proof
    assume "\<forall>p. PKCS7UnPadding src \<noteq> Inl (Panic p)"
    with e have "src \<noteq> []" by auto
    then show "1 \<le> length src" by (cases src) simp_all
  qed
  with e show ?thesis by simp
qed

lemma PKCS7UnPadding_two_bytes: "PKCS7UnPadding [2, 2] = Inr []"
  by (simp add: PKCS7UnPadding_def index_at_def slice_from_def slice_to_def BlockSize_def
        pad_loop.simps)

theorem PKCS7UnPadding_empty_panics_witness:
  "(\<forall>p. PKCS7UnPadding [2, 2] \<noteq> Inl (Panic p)) \<and> 1 \<le> length ([2, 2] :: bytes)"
  using PKCS7UnPadding_empty_panics [of "[2, 2]"] by (simp add: PKCS7UnPadding_two_bytes)

lemma pad_loop_result:
  "0 \<le> i \<Longrightarrow> int (length pad) = p \<Longrightarrow>
   pad_loop pad p i =
     (if \<forall>j. nat i \<le> j \<and> j < length pad \<longrightarrow> pad ! j = word_of_int p then None
      else Some (Err ''invalid padding''))"
proof (induction pad p i rule: pad_loop.induct)
  case (1 pad unpadding i)
  show ?case
  proof (cases "i < unpadding")
    case False
    with "1.prems" have "\<forall>j. nat i \<le> j \<and> j < length pad \<longrightarrow> pad ! j = word_of_int unpadding"
      by auto
    with False show ?thesis by (simp add: pad_loop.simps)
  next
    case True
    with "1.prems" have inr: "index_at pad i = Inr (pad ! nat i)"
      by (simp add: index_at_def)
    from True "1.prems" have lt: "nat i < length pad" by auto
    show ?thesis
    proof (cases "pad ! nat i = word_of_int unpadding")
      case False
      with lt have "\<not> (\<forall>j. nat i \<le> j \<and> j < length pad \<longrightarrow> pad ! j = word_of_int unpadding)"
        by auto
      with True inr False show ?thesis
        by (subst pad_loop.simps) simp
    next
      case eq: True
      have ih: "pad_loop pad unpadding (i + 1) =
          (if \<forall>j. nat (i + 1) \<le> j \<and> j < length pad \<longrightarrow> pad ! j = word_of_int unpadding
           then None else Some (Err ''invalid padding''))"
      proof (rule "1.IH" [OF True inr])
        show "\<not> pad ! nat i \<noteq> word_of_int unpadding" using eq by simp
        show "0 \<le> i + 1" using "1.prems" by simp
        show "int (length pad) = unpadding" using "1.prems" by simp
      qed
      have "(\<forall>j. nat (i + 1) \<le> j \<and> j < length pad \<longrightarrow> pad ! j = word_of_int unpadding) \<longleftrightarrow>
            (\<forall>j. nat i \<le> j \<and> j < length pad \<longrightarrow> pad ! j = word_of_int unpadding)"
      proof
        assume a: "\<forall>j. nat (i + 1) \<le> j \<and> j < length pad \<longrightarrow> pad ! j = word_of_int unpadding"
        show "\<forall>j. nat i \<le> j \<and> j < length pad \<longrightarrow> pad ! j = word_of_int unpadding"
        proof (intro allI impI)
          fix j assume j: "nat i \<le> j \<and> j < length pad"
          show "pad ! j = word_of_int unpadding"
          proof (cases "j = nat i")
            case True
            with eq show ?thesis by simp
          next
            case False
            with j "1.prems" have "nat (i + 1) \<le> j" by auto
            with a j show ?thesis by simp
          qed
        qed
      next
        assume a: "\<forall>j. nat i \<le> j \<and> j < length pad \<longrightarrow> pad ! j = word_of_int unpadding"
        show "\<forall>j. nat (i + 1) \<le> j \<and> j < length pad \<longrightarrow> pad ! j = word_of_int unpadding"
          using a "1.prems" by auto
      qed
      with ih True inr eq show ?thesis
        by (subst pad_loop.simps) simp
    qed
  qed
qed

text \<open>
  What \<^verbatim>\<open>PKCS7UnPadding\<close> does on every buffer. With \<open>p\<close> the value of the last byte:
  it panics on the empty buffer and when \<open>1 \<le> p \<le> 16\<close> exceeds the length; otherwise
  it returns the invalid-padding error when \<open>p\<close> is 0, or above 16, or differs from one
  of the last \<open>p\<close> bytes, and the buffer without its last \<open>p\<close> bytes when not.
\<close>

lemma PKCS7UnPadding_cases:
  "PKCS7UnPadding src =
     (if src = [] then Inl (Panic IndexOutOfRange)
      else if 16 < uint (last src) \<or> uint (last src) = 0 then Inl (Err ''invalid padding'')
      else if int (length src) < uint (last src) then Inl (Panic SliceBoundsOutOfRange)
      else if \<exists>b \<in> set (drop (length src - unat (last src)) src). b \<noteq> last src
           then Inl (Err ''invalid padding'')
      else Inr (take (length src - unat (last src)) src))"
proof (cases "src = []")
  case True
  then show ?thesis by (simp add: PKCS7UnPadding_def index_at_def)
next
  case ne: False
  define p where "p = uint (last src)"
  have idx: "index_at src (int (length src) - 1) = Inr (last src)"
    by (rule index_at_last [OF ne])
  show ?thesis
  proof (cases "16 < p \<or> p = 0")
    case True
    with ne idx show ?thesis
      by (auto simp add: PKCS7UnPadding_def Let_def BlockSize_def p_def)
  next
    case ok: False
    moreover have "0 \<le> p" by (simp add: p_def)
    ultimately have p: "0 < p" "p \<le> 16" by linarith+
    show ?thesis
    proof (cases "int (length src) < p")
      case True
      with ne idx ok show ?thesis
        by (simp add: PKCS7UnPadding_def Let_def BlockSize_def p_def slice_from_def)
    next
      case fits: False
      define n where "n = unat (last src)"
      have pn: "p = int n" by (simp add: p_def n_def)
      have le: "n \<le> length src" using fits pn by simp
      have wp: "(word_of_int p :: byte) = last src" by (simp add: p_def)
      define pad where "pad = drop (length src - n) src"
      have sl: "slice_from src (int (length src) - p) = Inr pad"
        using le by (simp add: slice_from_def pad_def pn nat_diff_distrib)
      have lpad: "int (length pad) = p"
        using le by (simp add: pad_def pn)
      have loop: "pad_loop pad p 0 =
          (if \<forall>j. j < length pad \<longrightarrow> pad ! j = last src then None
           else Some (Err ''invalid padding''))"
        using pad_loop_result [of 0 pad p] lpad wp by simp
      have all: "(\<forall>j. j < length pad \<longrightarrow> pad ! j = last src) \<longleftrightarrow> \<not> (\<exists>b \<in> set pad. b \<noteq> last src)"
        by (metis in_set_conv_nth)
      have st: "slice_to src [] (int (length src) - p) = Inr (take (length src - n) src)"
        using le by (simp add: slice_to_def pn nat_diff_distrib)
      have "PKCS7UnPadding src =
              (if \<exists>b \<in> set pad. b \<noteq> last src then Inl (Err ''invalid padding'')
               else Inr (take (length src - n) src))"
        unfolding PKCS7UnPadding_def Let_def
        using ok all by (simp add: idx p_def [symmetric] BlockSize_def sl loop st)
      with ne ok fits show ?thesis by (simp add: p_def pad_def n_def)
    qed
  qed
qed

text \<open>
  C8. The buffer \<open>[1, 2, 5]\<close> ends in the padding count 5, which is neither 0 nor
  above the block size, and its bytes are not all 5: the invalid-padding error is due.
  The source slices \<^verbatim>\<open>src[len(src)-unpadding:]\<close> at the bound \<open>-2\<close> and panics.
\<close>

theorem PKCS7UnPadding_short_buffer_panics:
  "PKCS7UnPadding [1, 2, 5] = Inl (Panic SliceBoundsOutOfRange)"
  by (simp add: PKCS7UnPadding_def index_at_def slice_from_def BlockSize_def)

section \<open>CBC mode: decryption inverts encryption\<close>

lemma xor_bytes_cancel:
  "length a = length b \<Longrightarrow> xor_bytes (xor_bytes a b) b = a"
  unfolding xor_bytes_def
  by (induction a b rule: list_induct2) (simp_all add: xor.assoc)

lemma length_xor_bytes: "length (xor_bytes a b) = min (length a) (length b)"
  by (simp add: xor_bytes_def)

lemma CBC_blocks_round_trip:
  "\<forall>b. length b = 16 \<longrightarrow> length (enc b) = 16 \<and> dec (enc b) = b \<Longrightarrow>
   length iv = 16 \<Longrightarrow> length s mod 16 = 0 \<Longrightarrow>
   CBCDecrypter_CryptBlocks dec iv (CBCEncrypter_CryptBlocks enc iv s) = s"
proof (induction enc iv s rule: CBCEncrypter_CryptBlocks.induct)
  case (1 enc iv src)
  from "1.prems" have aes: "\<forall>b. length b = 16 \<longrightarrow> length (enc b) = 16 \<and> dec (enc b) = b"
    by simp
  show ?case
  proof (cases "src = []")
    case True
    then show ?thesis
      by (simp add: CBCEncrypter_CryptBlocks.simps CBCDecrypter_CryptBlocks.simps)
  next
    case False
    with "1.prems" have len: "16 \<le> length src" by (cases "length src < 16") auto
    define x where "x = xor_bytes (take 16 src) iv"
    define c where "c = enc x"
    have lx: "length x = 16" using len "1.prems" by (simp add: x_def length_xor_bytes)
    have lc: "length c = 16" and dc: "dec c = x" using aes lx by (simp_all add: c_def)
    have rest: "length (drop 16 src) mod 16 = 0"
      using "1.prems" len by (simp add: mod_diff_eq [symmetric] le_mod_geq)
    have IH: "CBCDecrypter_CryptBlocks dec c (CBCEncrypter_CryptBlocks enc c (drop 16 src)) = drop 16 src"
      using "1.IH" [OF False, of c] lc rest "1.prems" by (simp add: c_def x_def)
    have enc_eq: "CBCEncrypter_CryptBlocks enc iv src = c @ CBCEncrypter_CryptBlocks enc c (drop 16 src)"
      using False by (subst CBCEncrypter_CryptBlocks.simps) (simp add: c_def x_def Let_def)
    have "CBCDecrypter_CryptBlocks dec iv (c @ CBCEncrypter_CryptBlocks enc c (drop 16 src))
          = xor_bytes (dec c) iv @ CBCDecrypter_CryptBlocks dec c (CBCEncrypter_CryptBlocks enc c (drop 16 src))"
      using lc by (subst CBCDecrypter_CryptBlocks.simps) (auto simp add: Let_def)
    also have "\<dots> = xor_bytes x iv @ drop 16 src" by (simp only: IH dc)
    also have "xor_bytes x iv = take 16 src"
      unfolding x_def using len "1.prems" by (intro xor_bytes_cancel) simp
    finally show ?thesis by (simp add: enc_eq)
  qed
qed

lemma length_CBCEncrypter:
  "\<forall>b. length b = 16 \<longrightarrow> length (enc b) = 16 \<Longrightarrow>
   length iv = 16 \<Longrightarrow> length s mod 16 = 0 \<Longrightarrow>
   length (CBCEncrypter_CryptBlocks enc iv s) = length s"
proof (induction enc iv s rule: CBCEncrypter_CryptBlocks.induct)
  case (1 enc iv src)
  from "1.prems" have aes: "\<forall>b. length b = 16 \<longrightarrow> length (enc b) = 16"
    by simp
  show ?case
  proof (cases "src = []")
    case True
    then show ?thesis by (simp add: CBCEncrypter_CryptBlocks.simps)
  next
    case False
    with "1.prems" have len: "16 \<le> length src" by (cases "length src < 16") auto
    define c where "c = enc (xor_bytes (take 16 src) iv)"
    have lc: "length c = 16" using aes len "1.prems" by (simp add: c_def length_xor_bytes)
    have rest: "length (drop 16 src) mod 16 = 0"
      using "1.prems" len by (simp add: mod_diff_eq [symmetric] le_mod_geq)
    have "length (CBCEncrypter_CryptBlocks enc c (drop 16 src)) = length (drop 16 src)"
      using "1.IH" [OF False, of c] lc rest "1.prems" by (simp add: c_def)
    moreover have "CBCEncrypter_CryptBlocks enc iv src = c @ CBCEncrypter_CryptBlocks enc c (drop 16 src)"
      using False by (subst CBCEncrypter_CryptBlocks.simps) (simp add: c_def Let_def)
    ultimately show ?thesis using lc len by simp
  qed
qed

text \<open>
  C7. For a key of 16, 24 or 32 bytes, a plaintext whose length is a multiple of 16 and
  any 16-byte IV drawn by the random read, \<^verbatim>\<open>CBCEncrypt\<close> returns the IV followed by
  the encrypted blocks (as many bytes as the plaintext has), and \<^verbatim>\<open>CBCDecrypt\<close> under
  the same key returns the plaintext. The block cipher is any pair of functions that are
  inverse to each other on 16-byte blocks, as AES is.
\<close>

theorem CBC_round_trip:
  assumes aes: "\<forall>b. length b = 16 \<longrightarrow> length (aes_enc k b) = 16 \<and> aes_dec k (aes_enc k b) = b"
    and key: "length k = 16 \<or> length k = 24 \<or> length k = 32"
    and plain: "length p mod 16 = 0"
    and iv: "length iv = 16"
  shows "CBCEncrypt aes_enc k p (Inr iv) = Inr (iv @ CBCEncrypter_CryptBlocks (aes_enc k) iv p) \<and>
         length (CBCEncrypter_CryptBlocks (aes_enc k) iv p) = length p \<and>
         CBCDecrypt aes_dec k (iv @ CBCEncrypter_CryptBlocks (aes_enc k) iv p) = Inr p"
proof -
  have aes': "\<forall>b. length b = 16 \<longrightarrow> length (aes_enc k b) = 16" using aes by simp
  have len: "length (CBCEncrypter_CryptBlocks (aes_enc k) iv p) = length p"
    by (rule length_CBCEncrypter [OF aes' iv plain])
  have rt: "CBCDecrypter_CryptBlocks (aes_dec k) iv (CBCEncrypter_CryptBlocks (aes_enc k) iv p) = p"
    by (rule CBC_blocks_round_trip [OF aes iv plain])
  have p16: "int (length p) mod 16 = 0" using plain by presburger
  have e: "CBCEncrypt aes_enc k p (Inr iv) = Inr (iv @ CBCEncrypter_CryptBlocks (aes_enc k) iv p)"
    using key p16 by (auto simp add: CBCEncrypt_def NewCipher_def BlockSize_def)
  have d: "CBCDecrypt aes_dec k (iv @ CBCEncrypter_CryptBlocks (aes_enc k) iv p) = Inr p"
    using key p16 iv len rt by (auto simp add: CBCDecrypt_def NewCipher_def BlockSize_def Let_def)
  from e len d show ?thesis by simp
qed

lemma toy_aes_inverse:
  "length k = 16 \<Longrightarrow> length b = 16 \<Longrightarrow>
   length (toy_aes k b) = 16 \<and> toy_aes k (toy_aes k b) = b"
  by (simp add: toy_aes_def length_xor_bytes xor_bytes_cancel)

theorem CBC_round_trip_witness:
  "CBCDecrypt toy_aes (replicate 16 1)
     (replicate 16 3 @
      CBCEncrypter_CryptBlocks (toy_aes (replicate 16 1)) (replicate 16 3) (replicate 32 7)) =
   Inr (replicate 32 7) \<and>
   CBCEncrypt toy_aes (replicate 16 1) (replicate 32 7) (Inr (replicate 16 3)) =
   Inr (replicate 16 3 @
        CBCEncrypter_CryptBlocks (toy_aes (replicate 16 1)) (replicate 16 3) (replicate 32 7))"
proof -
  have aes: "\<forall>b. length b = 16 \<longrightarrow>
               length (toy_aes (replicate 16 1) b) = 16 \<and>
               toy_aes (replicate 16 1) (toy_aes (replicate 16 1) b) = b"
    by (simp add: toy_aes_inverse)
  have key: "length (replicate 16 (1::byte)) = 16 \<or> length (replicate 16 (1::byte)) = 24 \<or>
             length (replicate 16 (1::byte)) = 32"
    by simp
  have plain: "length (replicate 32 (7::byte)) mod 16 = 0" by simp
  have iv: "length (replicate 16 (3::byte)) = 16" by simp
  from CBC_round_trip [where aes_enc = toy_aes and aes_dec = toy_aes, OF aes key plain iv]
  show ?thesis by simp
qed

section \<open>Truncated HMAC\<close>

text \<open>
  C9, as the code has it. With the default hash set, a truncation \<open>n\<close> between 0 and
  the length of the tag gives the first \<open>n\<close> bytes of \<^verbatim>\<open>HMAC(k, m)\<close>: a prefix of the
  tag, of length \<open>n\<close>, empty for \<open>n = 0\<close>. A negative \<open>n\<close>, or one beyond the
  capacity of the tag's buffer, makes the slice expression panic; the result type has
  no error value.
\<close>

theorem HMACTruncated_prefix:
  assumes "defaultHash = Some h"
  shows "(0 \<le> n \<and> n \<le> int (length (elems (hmac_sum h k m))) \<longrightarrow>
           (\<exists>tag. HMAC hmac_sum defaultHash k m = Inr tag \<and>
                  HMACTruncated hmac_sum defaultHash k m n = Inr (take (nat n) tag) \<and>
                  int (length (take (nat n) tag)) = n \<and>
                  prefix (take (nat n) tag) tag)) \<and>
         (n < 0 \<or> int (length (elems (hmac_sum h k m))) + int (length (spare (hmac_sum h k m))) < n \<longrightarrow>
           HMACTruncated hmac_sum defaultHash k m n = Inl SliceBoundsOutOfRange)"
  using assms
  by (auto simp add: HMAC_def HMACTruncated_def slice_to_def Let_def take_is_prefix)

theorem HMACTruncated_prefix_witness:
  "HMACTruncated toy_hmac_sum (Some toy_hash) [1] [2] 5 = Inr (replicate 5 2) \<and>
   HMAC toy_hmac_sum (Some toy_hash) [1] [2] = Inr (replicate 32 2) \<and>
   HMACTruncated toy_hmac_sum (Some toy_hash) [1] [2] 33 = Inl SliceBoundsOutOfRange"
proof -
  have len: "int (length (elems (toy_hmac_sum toy_hash [1] [2]))) = 32"
    and sp: "spare (toy_hmac_sum toy_hash [1] [2]) = []"
    by (simp_all add: toy_hmac_sum_def toy_hash_def)
  have tag: "HMAC toy_hmac_sum (Some toy_hash) [1] [2] = Inr (replicate 32 2)"
    by (simp add: HMAC_def toy_hmac_sum_def toy_hash_def)
  from HMACTruncated_prefix [of "Some toy_hash" toy_hash 5 toy_hmac_sum "[1]" "[2]"] len tag
  have a: "HMACTruncated toy_hmac_sum (Some toy_hash) [1] [2] 5 = Inr (replicate 5 2)"
    by simp
  from HMACTruncated_prefix [of "Some toy_hash" toy_hash 33 toy_hmac_sum "[1]" "[2]"] len sp
  have b: "HMACTruncated toy_hmac_sum (Some toy_hash) [1] [2] 33 = Inl SliceBoundsOutOfRange"
    by simp
  from a tag b show ?thesis by simp
qed

text \<open>
  The claim as stated fails at \<open>n = 0\<close>, where the call returns the empty buffer, and
  at \<open>n = -1\<close>, where it panics instead of returning an error.
\<close>

theorem HMACTruncated_zero_counterexample:
  "HMACTruncated toy_hmac_sum (Some toy_hash) [1] [2] 0 = Inr [] \<and>
   HMACTruncated toy_hmac_sum (Some toy_hash) [1] [2] (- 1) = Inl SliceBoundsOutOfRange"
  by (simp add: HMACTruncated_def slice_to_def toy_hmac_sum_def toy_hash_def)

section \<open>The security helper\<close>

text \<open>
  C1, as the code has it. Every call leaves the \<^verbatim>\<open>once\<close> flag set. A call made when the
  flag is set runs nothing: the process state is unchanged, so no node is registered or
  initialised again, and the call returns its own fresh \<^verbatim>\<open>secHelper\<close> and \<^verbatim>\<open>err\<close>,
  both nil, whatever the first call returned.
\<close>

theorem getSecHelper_after_first_call:
  "once_done (snd (getSecHelper cfg C st)) \<and>
   (once_done st \<longrightarrow> getSecHelper cfg C st = ((None, None), st))"
  by (simp add: getSecHelper_def Once_Do_def split: prod.splits)

lemma getSecHelper_first_ok:
  "getSecHelper (secure_settings ''secret'') counting_crypto new_process =
     ((Some ''vp0'', None), \<lparr>once_done = True, world = 2\<rparr>)"
  by (simp add: getSecHelper_def Once_Do_def getSecHelper_func_def secure_settings_def
        counting_crypto_def counting_register_def counting_init_def new_process_def)

lemma getSecHelper_first_refused:
  "getSecHelper (secure_settings []) counting_crypto new_process =
     ((None, Some (ErrOther ''enrollment refused'')), \<lparr>once_done = True, world = 1\<rparr>)"
  by (simp add: getSecHelper_def Once_Do_def getSecHelper_func_def secure_settings_def
        counting_crypto_def counting_register_def counting_init_def new_process_def)

theorem getSecHelper_after_first_call_witness:
  "once_done \<lparr>once_done = True, world = 2 :: nat\<rparr> \<and>
   getSecHelper (secure_settings ''secret'') counting_crypto \<lparr>once_done = True, world = 2\<rparr> =
     ((None, None), \<lparr>once_done = True, world = 2\<rparr>)"
  using getSecHelper_after_first_call
    [of "secure_settings ''secret''" counting_crypto "\<lparr>once_done = True, world = 2\<rparr>"]
  by simp

text \<open>
  The claim as stated fails: after a first call that returned a peer, and after a first
  call that returned an error, the second call returns neither.
\<close>

theorem getSecHelper_outcome_counterexample:
  "fst (getSecHelper (secure_settings ''secret'') counting_crypto new_process) =
     (Some ''vp0'', None) \<and>
   fst (getSecHelper (secure_settings ''secret'') counting_crypto
         (snd (getSecHelper (secure_settings ''secret'') counting_crypto new_process))) =
     (None, None) \<and>
   fst (getSecHelper (secure_settings []) counting_crypto new_process) =
     (None, Some (ErrOther ''enrollment refused'')) \<and>
   fst (getSecHelper (secure_settings []) counting_crypto
         (snd (getSecHelper (secure_settings []) counting_crypto new_process))) =
     (None, None)"
  by (simp add: getSecHelper_first_ok getSecHelper_first_refused)
    (simp add: getSecHelper_def Once_Do_def)

section \<open>Registration\<close>

lemma keeps_flagsD:
  "keeps_flags step \<Longrightarrow> isRegistered (snd (step node)) = isRegistered node"
  "keeps_flags step \<Longrightarrow> isInitialized (snd (step node)) = isInitialized node"
  by (simp_all add: keeps_flags_def)

lemma Errorf_flags [simp]:
  "isRegistered (Errorf format args node) = isRegistered node"
  "isInitialized (Errorf format args node) = isInitialized node"
  by (simp_all add: Errorf_def)

lemma Debugf_flags [simp]:
  "isRegistered (Debugf format args node) = isRegistered node"
  "isInitialized (Debugf format args node) = isInitialized node"
  by (simp_all add: Debugf_def)

lemma register_conf_fails:
  "initConfiguration M name' (node\<lparr>eType := eType'\<rparr>) = (Some err, n1) \<Longrightarrow>
   register M eType' name' pwd' enrollID' enrollPWD regFunc node =
     (Some err, Errorf ''Failed initiliazing configuration [%s]: [%s].''
                  [ArgString enrollID', ArgError err] n1)"
  by (simp add: register_def)

lemma register_ks_fails:
  "initConfiguration M name' (node\<lparr>eType := eType'\<rparr>) = (None, n1) \<Longrightarrow>
   initKeyStore M pwd' n1 = (Some err, n2) \<Longrightarrow>
   register M eType' name' pwd' enrollID' enrollPWD regFunc node =
     (Some err,
      if err = ErrKeyStoreAlreadyInitialized
      then Errorf ''Keystore already initialized.'' [] n2
      else Errorf ''Failed initiliazing keystore [%s].'' [ArgError err] n2)"
  by (simp add: register_def)

lemma register_guards:
  "initConfiguration M name' (node\<lparr>eType := eType'\<rparr>) = (None, n1) \<Longrightarrow>
   initKeyStore M pwd' n1 = (None, n2) \<Longrightarrow>
   register M eType' name' pwd' enrollID' enrollPWD regFunc node =
     (if isRegistered n2 then (Some ErrAlreadyRegistered, n2)
      else if isInitialized n2 then (Some ErrAlreadyInitialized, n2)
      else
        (case registerCryptoEngine M enrollID' enrollPWD n2 of
           (Some err, n3) \<Rightarrow>
             (Some err, Errorf ''Failed registering node crypto engine [%s].'' [ArgError err] n3)
         | (None, n3) \<Rightarrow>
             (case (case regFunc of None \<Rightarrow> (None, n3)
                    | Some f \<Rightarrow> f eType' name' pwd' enrollID' enrollPWD n3) of
                (Some err, n4) \<Rightarrow> (Some err, n4)
              | (None, n4) \<Rightarrow>
                  (None, Debugf ''Registration of node [%s] with name [%s] completed''
                           [ArgType eType', ArgString name'] (setRegistered n4)))))"
  by (simp add: register_def nodeRegister_def IsRegistered_def IsInitialized_def
           split: prod.splits option.splits)

text \<open>
  C2. On a node that is not registered, with steps that do not write the lifecycle flags
  themselves: after \<^verbatim>\<open>register\<close> the registered flag is set exactly when the
  configuration step, the key store step, the crypto engine step and the hook have all
  returned nil (on a node that is not initialised), which is exactly when \<^verbatim>\<open>register\<close>
  returns nil. The error of the first step that fails is the error returned, and the
  flag is then still false.
\<close>

theorem register_sets_flag_last:
  fixes M eType' name' pwd' enrollID' enrollPWD regFunc node c k e h r
  defines "c \<equiv> initConfiguration M name' (node\<lparr>eType := eType'\<rparr>)"
    and "k \<equiv> initKeyStore M pwd' (snd c)"
    and "e \<equiv> registerCryptoEngine M enrollID' enrollPWD (snd k)"
    and "h \<equiv> (case regFunc of None \<Rightarrow> (None, snd e)
                | Some f \<Rightarrow> f eType' name' pwd' enrollID' enrollPWD (snd e))"
    and "r \<equiv> register M eType' name' pwd' enrollID' enrollPWD regFunc node"
  assumes kc: "keeps_flags (initConfiguration M name')"
    and kk: "keeps_flags (initKeyStore M pwd')"
    and ke: "keeps_flags (registerCryptoEngine M enrollID' enrollPWD)"
    and kh: "\<forall>f. regFunc = Some f \<longrightarrow> keeps_flags (f eType' name' pwd' enrollID' enrollPWD)"
    and fresh: "\<not> isRegistered node"
  shows "(isRegistered (snd r) \<longleftrightarrow>
            fst c = None \<and> fst k = None \<and> \<not> isInitialized node \<and>
            fst e = None \<and> fst h = None) \<and>
         (isRegistered (snd r) \<longleftrightarrow> fst r = None) \<and>
         (fst c \<noteq> None \<longrightarrow> fst r = fst c) \<and>
         (fst c = None \<and> fst k \<noteq> None \<longrightarrow> fst r = fst k) \<and>
         (fst c = None \<and> fst k = None \<and> isInitialized node \<longrightarrow>
            fst r = Some ErrAlreadyInitialized) \<and>
         (fst c = None \<and> fst k = None \<and> \<not> isInitialized node \<and> fst e \<noteq> None \<longrightarrow>
            fst r = fst e) \<and>
         (fst c = None \<and> fst k = None \<and> \<not> isInitialized node \<and> fst e = None \<and>
            fst h \<noteq> None \<longrightarrow> fst r = fst h)"
proof -
  obtain ce n1 where c: "c = (ce, n1)" by (cases c)
  obtain ke' n2 where k: "k = (ke', n2)" by (cases k)
  obtain ee n3 where e: "e = (ee, n3)" by (cases e)
  obtain he n4 where h: "h = (he, n4)" by (cases h)
  have c': "initConfiguration M name' (node\<lparr>eType := eType'\<rparr>) = (ce, n1)"
    using c by (simp add: c_def)
  have k': "initKeyStore M pwd' n1 = (ke', n2)"
    using k c by (simp add: k_def)
  have e': "registerCryptoEngine M enrollID' enrollPWD n2 = (ee, n3)"
    using e k by (simp add: e_def)
  have h': "(case regFunc of None \<Rightarrow> (None, n3)
             | Some f \<Rightarrow> f eType' name' pwd' enrollID' enrollPWD n3) = (he, n4)"
    using h e by (cases regFunc) (simp_all add: h_def)
  have f1: "\<not> isRegistered n1" "isInitialized n1 = isInitialized node"
    using keeps_flagsD [OF kc, of "node\<lparr>eType := eType'\<rparr>"] c' fresh by simp_all
  have f2: "\<not> isRegistered n2" "isInitialized n2 = isInitialized node"
    using keeps_flagsD [OF kk, of n1] k' f1 by simp_all
  have f3: "\<not> isRegistered n3"
    using keeps_flagsD(1) [OF ke, of n2] e' f2 by simp
  have f4: "\<not> isRegistered n4"
  proof (cases regFunc)
    case None
    with h' f3 show ?thesis by simp
  next
    case (Some f)
    with kh have "keeps_flags (f eType' name' pwd' enrollID' enrollPWD)" by simp
    from keeps_flagsD(1) [OF this, of n3] h' Some f3 show ?thesis by simp
  qed
  show ?thesis
  proof (cases ce)
    case (Some err)
    have "r = (Some err, Errorf ''Failed initiliazing configuration [%s]: [%s].''
                  [ArgString enrollID', ArgError err] n1)"
      unfolding r_def by (rule register_conf_fails [OF c' [unfolded Some]])
    with Some c f1 show ?thesis by simp
  next
    case cNone: None
    show ?thesis
    proof (cases ke')
      case (Some err)
      have "r = (Some err,
                 if err = ErrKeyStoreAlreadyInitialized
                 then Errorf ''Keystore already initialized.'' [] n2
                 else Errorf ''Failed initiliazing keystore [%s].'' [ArgError err] n2)"
        unfolding r_def by (rule register_ks_fails [OF c' [unfolded cNone] k' [unfolded Some]])
      with Some cNone c k f2 show ?thesis by simp
    next
      case kNone: None
      note g = register_guards [OF c' [unfolded cNone] k' [unfolded kNone],
          of enrollID' enrollPWD regFunc, folded r_def]
      show ?thesis
      proof (cases "isInitialized node")
      case True
        with g f2 have "r = (Some ErrAlreadyInitialized, n2)" by simp
        with True cNone kNone c k f2 show ?thesis by simp
      next
      case notInit: False
      show ?thesis
      proof (cases ee)
        case (Some err)
        with g e' f2 notInit have "r = (Some err,
            Errorf ''Failed registering node crypto engine [%s].'' [ArgError err] n3)"
          by simp
        with Some cNone kNone c k e f3 notInit show ?thesis by simp
      next
        case eNone: None
        show ?thesis
        proof (cases he)
          case (Some err)
          with g e' h' f2 eNone notInit have "r = (Some err, n4)" by simp
          with Some cNone kNone eNone c k e h f4 notInit show ?thesis by simp
        next
          case None
          with g e' h' f2 eNone notInit have "r = (None,
              Debugf ''Registration of node [%s] with name [%s] completed''
                [ArgType eType', ArgString name'] (setRegistered n4))" by simp
          with None cNone kNone eNone c k e h notInit show ?thesis
            by (simp add: setRegistered_def)
        qed
      qed
      qed
    qed
  qed
qed

lemma keeps_flags_test_initConfiguration: "keeps_flags (test_initConfiguration n)"
  by (simp add: keeps_flags_def test_initConfiguration_def)

lemma keeps_flags_test_initKeyStore: "keeps_flags (test_initKeyStore p)"
  by (simp add: keeps_flags_def test_initKeyStore_def)

lemma keeps_flags_test_registerCryptoEngine: "keeps_flags (test_registerCryptoEngine i s)"
  by (simp add: keeps_flags_def test_registerCryptoEngine_def)


lemma keeps_flags_test_regFunc: "keeps_flags (test_regFunc t n p i s)"
  by (simp add: keeps_flags_def test_regFunc_def)


lemmas test_steps =
  test_methods_def test_initConfiguration_def test_initKeyStore_def
  test_registerCryptoEngine_def test_initCryptoEngine_def

lemmas node_code =
  register_def nodeRegister_def init_def nodeInit_def IsRegistered_def IsInitialized_def
  setRegistered_def setInitialized_def Errorf_def Debugf_def new_node_def


lemma register_hook_ok:
  "register test_methods NodeValidator ''vp0'' [] ''vp0'' ''secret'' (Some test_regFunc) new_node =
     (None,
      new_node\<lparr>isRegistered := True, eType := NodeValidator, conf := Some \<lparr>name = ''vp0''\<rparr>,
        ks := Some \<lparr>isOpen = True, pwd = []\<rparr>, enrollID := ''vp0'',
        enrollCert := Some [1, 2, 3], enrollChainKey := Some [4, 5, 6],
        logged := [Debug_line ''Registration of node [%s] with name [%s] completed''
                     [ArgType NodeValidator, ArgString ''vp0'']]\<rparr>)"
  by (simp add: node_code test_steps test_regFunc_def)

lemma register_hook_refused:
  "register test_methods NodeValidator ''vp0'' [] ''vp0'' [] (Some test_regFunc) new_node =
     (Some (ErrOther ''enrollment refused''),
      new_node\<lparr>eType := NodeValidator, conf := Some \<lparr>name = ''vp0''\<rparr>,
        ks := Some \<lparr>isOpen = True, pwd = []\<rparr>,
        logged := [Error_line ''Failed registering node crypto engine [%s].''
                     [ArgError (ErrOther ''enrollment refused'')]]\<rparr>)"
  by (simp add: node_code test_steps test_regFunc_def)

theorem register_sets_flag_last_witness:
  "\<not> isRegistered new_node \<and>
   fst (register test_methods NodeValidator ''vp0'' [] ''vp0'' ''secret'' (Some test_regFunc)
         new_node) = None \<and>
   isRegistered
     (snd (register test_methods NodeValidator ''vp0'' [] ''vp0'' ''secret'' (Some test_regFunc)
            new_node)) \<and>
   fst (register test_methods NodeValidator ''vp0'' [] ''vp0'' [] (Some test_regFunc) new_node) =
     Some (ErrOther ''enrollment refused'') \<and>
   \<not> isRegistered
       (snd (register test_methods NodeValidator ''vp0'' [] ''vp0'' [] (Some test_regFunc)
              new_node))"
proof -
  have kc: "keeps_flags (initConfiguration test_methods ''vp0'')"
    and kk: "keeps_flags (initKeyStore test_methods [])"
    and ke: "keeps_flags (registerCryptoEngine test_methods ''vp0'' ''secret'')"
    and ke': "keeps_flags (registerCryptoEngine test_methods ''vp0'' [])"
    by (simp_all add: test_methods_def keeps_flags_test_initConfiguration
          keeps_flags_test_initKeyStore keeps_flags_test_registerCryptoEngine)
  have kh: "\<forall>f. Some test_regFunc = Some f \<longrightarrow>
              keeps_flags (f NodeValidator ''vp0'' [] ''vp0'' ''secret'')"
    and kh': "\<forall>f. Some test_regFunc = Some f \<longrightarrow>
              keeps_flags (f NodeValidator ''vp0'' [] ''vp0'' [])"
    by (simp_all add: keeps_flags_test_regFunc)
  have fresh: "\<not> isRegistered new_node" by (simp add: new_node_def)
  note ok = register_sets_flag_last [OF kc kk ke kh fresh]
  note refused = register_sets_flag_last [OF kc kk ke' kh' fresh]
  have a: "fst (register test_methods NodeValidator ''vp0'' [] ''vp0'' ''secret''
                 (Some test_regFunc) new_node) = None"
    by (simp add: register_hook_ok)
  with ok [THEN conjunct2, THEN conjunct1] have b:
    "isRegistered (snd (register test_methods NodeValidator ''vp0'' [] ''vp0'' ''secret''
                         (Some test_regFunc) new_node))"
    by simp
  have c: "fst (register test_methods NodeValidator ''vp0'' [] ''vp0'' []
                 (Some test_regFunc) new_node) = Some (ErrOther ''enrollment refused'')"
    by (simp add: register_hook_refused)
  with refused [THEN conjunct2, THEN conjunct1] have d:
    "\<not> isRegistered (snd (register test_methods NodeValidator ''vp0'' [] ''vp0'' []
                            (Some test_regFunc) new_node))"
    by simp
  from fresh a b c d show ?thesis by simp
qed


lemma enrollment_material_eType [simp]:
  "enrollment_material (node\<lparr>eType := t\<rparr>) = enrollment_material node"
  by (simp add: enrollment_material_def)








section \<open>Initialisation\<close>












end
